theory Spec2Isabelle
  imports Main
begin

section \<open>Python strings\<close>

text \<open>
  A Python \<^verbatim>\<open>str\<close> is a sequence of Unicode code points; the input file is decoded
  from UTF-8 before any of the functions below sees it. A code point is a natural number
  here, and \<open>ustr\<close> turns an ASCII literal into such a sequence.
\<close>

type_synonym ustring = "nat list"

definition ustr :: "string \<Rightarrow> ustring" where
  "ustr s = map of_char s"

text \<open>
  \<^verbatim>\<open>str.isspace\<close> on one code point: the 29 code points CPython treats as whitespace,
  which are the ones \<^verbatim>\<open>str.strip()\<close> and \<^verbatim>\<open>str.split()\<close> remove.
\<close>

definition py_isspace :: "nat \<Rightarrow> bool" where
  "py_isspace c \<longleftrightarrow>
     (0x09 \<le> c \<and> c \<le> 0x0D) \<or> (0x1C \<le> c \<and> c \<le> 0x20) \<or> c = 0x85 \<or> c = 0xA0 \<or>
     c = 0x1680 \<or> (0x2000 \<le> c \<and> c \<le> 0x200A) \<or> c = 0x2028 \<or> c = 0x2029 \<or>
     c = 0x202F \<or> c = 0x205F \<or> c = 0x3000"

text \<open>\<^verbatim>\<open>s.strip()\<close>\<close>

definition py_strip :: "ustring \<Rightarrow> ustring" where
  "py_strip s = rev (dropWhile py_isspace (rev (dropWhile py_isspace s)))"

text \<open>
  Splitting at every code point that satisfies \<open>P\<close>, empty pieces kept: the pieces of
  \<^verbatim>\<open>re.split('[...]', s)\<close> for a character class, and the raw pieces of
  \<^verbatim>\<open>s.split()\<close>. The result is never the empty list.
\<close>

fun split_on :: "(nat \<Rightarrow> bool) \<Rightarrow> ustring \<Rightarrow> ustring list" where
  "split_on P [] = [[]]"
| "split_on P (c # cs) =
     (if P c then [] # split_on P cs
      else (case split_on P cs of [] \<Rightarrow> [[c]] | w # ws \<Rightarrow> (c # w) # ws))"

text \<open>\<^verbatim>\<open>s.split()\<close>: split at runs of whitespace, no empty piece in the result.\<close>

definition py_split :: "ustring \<Rightarrow> ustring list" where
  "py_split s = filter (\<lambda>w. w \<noteq> []) (split_on py_isspace s)"

text \<open>\<^verbatim>\<open>sep.join(xs)\<close>\<close>

fun py_join :: "ustring \<Rightarrow> ustring list \<Rightarrow> ustring" where
  "py_join sep [] = []"
| "py_join sep [x] = x"
| "py_join sep (x # y # ys) = x @ sep @ py_join sep (y # ys)"

text \<open>
  A value that is either \<^verbatim>\<open>None\<close> or a string: what \<^verbatim>\<open>row.get(column, '')\<close>
  returns (\<^verbatim>\<open>csv.DictReader\<close> fills the columns a short row lacks with \<^verbatim>\<open>None\<close>).
\<close>

datatype pyval = PyNone | PyStr ustring

section \<open>The name cleaner\<close>

text \<open>
  \<^verbatim>\<open>
  def clean_name(self, name):
      if not name:
          return ''
      return ' '.join(name.split())
  \<close>
\<close>

fun clean_name :: "pyval \<Rightarrow> ustring" where
  "clean_name PyNone = []"
| "clean_name (PyStr name) =
     (if name = [] then [] else py_join (ustr '' '') (py_split name))"

text \<open>Two adjacent whitespace code points somewhere in a string.\<close>

fun adjacent_ws :: "ustring \<Rightarrow> bool" where
  "adjacent_ws (a # b # cs) = ((py_isspace a \<and> py_isspace b) \<or> adjacent_ws (b # cs))"
| "adjacent_ws _ = False"

text \<open>A list of words: no word is empty and none contains whitespace.\<close>

definition wordlist :: "ustring list \<Rightarrow> bool" where
  "wordlist ws \<longleftrightarrow> (\<forall>w \<in> set ws. w \<noteq> [] \<and> (\<forall>c \<in> set w. \<not> py_isspace c))"

section \<open>The converter object and the tag cleaner\<close>

text \<open>
  \<^verbatim>\<open>str.replace(old, new)\<close>: every occurrence of \<open>old\<close>, found from left to right
  without overlap, is replaced by \<open>new\<close>. (With an empty \<open>old\<close> Python puts \<open>new\<close>
  before every code point and at the end.)
\<close>

fun py_replace :: "ustring \<Rightarrow> ustring \<Rightarrow> ustring \<Rightarrow> ustring" where
  "py_replace old new [] = (if old = [] then new else [])"
| "py_replace old new (c # cs) =
     (if old = [] then new @ c # py_replace old new cs
      else if take (length old) (c # cs) = old
           then new @ py_replace old new (drop (length old) (c # cs))
           else c # py_replace old new cs)"

text \<open>
  The counters of \<^verbatim>\<open>self.stats\<close>, the only mutable state of the converter object
  that the two passes and the cleaners touch.
\<close>

record stats =
  total_rows :: int
  processed :: int
  skipped :: int
  duplicates :: int
  invalid_emails :: int
  tags_cleaned :: int

text \<open>The counters as \<^verbatim>\<open>__init__\<close> sets them.\<close>

definition init_stats :: stats where
  "init_stats = \<lparr>total_rows = 0, processed = 0, skipped = 0, duplicates = 0,
     invalid_emails = 0, tags_cleaned = 0\<rparr>"

text \<open>
  The list literal of \<^verbatim>\<open>clean_tags\<close> is, byte for byte (all of it ASCII),
  \<^verbatim>\<open>quotes_to_remove = ['"', "'", '"', '"', ''', ''']\<close>
  Python reads its last part, \<^verbatim>\<open>''', '''\<close>, as one triple-quoted string whose content
  is a comma followed by a space. The list therefore has five elements: the double quote
  \<open>0x22\<close>, the apostrophe \<open>0x27\<close>, the double quote twice more, and the two code points
  \<open>0x2C 0x20\<close>. No curly quote (\<open>0x2018\<close>, \<open>0x2019\<close>, \<open>0x201C\<close>, \<open>0x201D\<close>) is in it.
\<close>

definition quotes_to_remove :: "ustring list" where
  "quotes_to_remove = [[0x22], [0x27], [0x22], [0x22], [0x2C, 0x20]]"

text \<open>The character class \<^verbatim>\<open>[,;|]\<close> of \<^verbatim>\<open>re.split\<close>.\<close>

definition is_delim :: "nat \<Rightarrow> bool" where
  "is_delim c \<longleftrightarrow> c = 0x2C \<or> c = 0x3B \<or> c = 0x7C"

text \<open>
  \<^verbatim>\<open>
  def clean_tags(self, tag_string):
      if not tag_string:
          return ''
      tag_string = tag_string.strip()
      quotes_to_remove = [...]
      for quote in quotes_to_remove:
          tag_string = tag_string.replace(quote, '')
      tags = re.split('[,;|]', tag_string)
      cleaned_tags = []
      for tag in tags:
          cleaned_tag = ' '.join(tag.split())
          if cleaned_tag:
              cleaned_tags.append(cleaned_tag)
      if cleaned_tags:
          self.stats['tags_cleaned'] += 1
      return ', '.join(cleaned_tags)
  \<close>
  \<open>cleaned_tags\<close> is the list of that name at the end of the loop, for a non-empty
  argument; \<open>clean_tags\<close> takes the counters and returns the string with the counters
  as the call leaves them.
\<close>

definition cleaned_tags :: "ustring \<Rightarrow> ustring list" where
  "cleaned_tags tag_string =
     (let stripped = py_strip tag_string;
          unquoted = fold (\<lambda>quote s. py_replace quote [] s) quotes_to_remove stripped;
          tags = split_on is_delim unquoted
      in filter (\<lambda>cleaned_tag. cleaned_tag \<noteq> [])
           (map (\<lambda>tag. py_join (ustr '' '') (py_split tag)) tags))"

fun clean_tags :: "stats \<Rightarrow> pyval \<Rightarrow> ustring \<times> stats" where
  "clean_tags st PyNone = ([], st)"
| "clean_tags st (PyStr tag_string) =
     (if tag_string = [] then ([], st)
      else let cleaned = cleaned_tags tag_string
           in (py_join (ustr '', '') cleaned,
               if cleaned \<noteq> [] then st\<lparr>tags_cleaned := tags_cleaned st + 1\<rparr> else st))"

section \<open>Regular expressions and the email validator\<close>

text \<open>
  The fragment of Python's \<^verbatim>\<open>re\<close> syntax that the email pattern uses: character
  classes and literals (a class with one member), concatenation, and repetition.
  \<open>Nul\<close>, \<open>Eps\<close> and \<open>Alt\<close> are there for the derivatives.
\<close>

datatype re = Nul | Eps | Cls "nat \<Rightarrow> bool" | Seq re re | Alt re re | Star re

fun nullable :: "re \<Rightarrow> bool" where
  "nullable Nul = False"
| "nullable Eps = True"
| "nullable (Cls P) = False"
| "nullable (Seq r s) = (nullable r \<and> nullable s)"
| "nullable (Alt r s) = (nullable r \<or> nullable s)"
| "nullable (Star r) = True"

fun deriv :: "nat \<Rightarrow> re \<Rightarrow> re" where
  "deriv c Nul = Nul"
| "deriv c Eps = Nul"
| "deriv c (Cls P) = (if P c then Eps else Nul)"
| "deriv c (Seq r s) =
     (if nullable r then Alt (Seq (deriv c r) s) (deriv c s) else Seq (deriv c r) s)"
| "deriv c (Alt r s) = Alt (deriv c r) (deriv c s)"
| "deriv c (Star r) = Seq (deriv c r) (Star r)"

text \<open>The whole string is a word of the expression.\<close>

definition matches :: "re \<Rightarrow> ustring \<Rightarrow> bool" where
  "matches r s = nullable (fold deriv s r)"

text \<open>
  \<^verbatim>\<open>bool(re.match('^' + r + '$', s))\<close>: the match starts at the first code point, and
  \<^verbatim>\<open>$\<close> holds at the end of the string and also just before a line feed that ends it.
\<close>

definition re_match_anchored :: "re \<Rightarrow> ustring \<Rightarrow> bool" where
  "re_match_anchored r s \<longleftrightarrow>
     matches r s \<or> (s \<noteq> [] \<and> last s = 0x0A \<and> matches r (butlast s))"

text \<open>\<^verbatim>\<open>r+\<close>\<close>

definition re_plus :: "re \<Rightarrow> re" where
  "re_plus r = Seq r (Star r)"

text \<open>\<^verbatim>\<open>[a-zA-Z]\<close>, \<^verbatim>\<open>[a-zA-Z0-9._%+-]\<close> and \<^verbatim>\<open>[a-zA-Z0-9.-]\<close>\<close>

definition is_alpha :: "nat \<Rightarrow> bool" where
  "is_alpha c \<longleftrightarrow> (0x61 \<le> c \<and> c \<le> 0x7A) \<or> (0x41 \<le> c \<and> c \<le> 0x5A)"

definition is_digit :: "nat \<Rightarrow> bool" where
  "is_digit c \<longleftrightarrow> 0x30 \<le> c \<and> c \<le> 0x39"

definition local_chr :: "nat \<Rightarrow> bool" where
  "local_chr c \<longleftrightarrow>
     is_alpha c \<or> is_digit c \<or> c = 0x2E \<or> c = 0x5F \<or> c = 0x25 \<or> c = 0x2B \<or> c = 0x2D"

definition domain_chr :: "nat \<Rightarrow> bool" where
  "domain_chr c \<longleftrightarrow> is_alpha c \<or> is_digit c \<or> c = 0x2E \<or> c = 0x2D"

text \<open>
  \<^verbatim>\<open>pattern = r'^[a-zA-Z0-9._%+-]+@[a-zA-Z0-9.-]+\.[a-zA-Z]{2,}$'\<close>
  without its two anchors; \<^verbatim>\<open>{2,}\<close> is two copies followed by a star.
\<close>

definition email_pattern :: re where
  "email_pattern =
     Seq (re_plus (Cls local_chr))
    (Seq (Cls (\<lambda>c. c = 0x40))
    (Seq (re_plus (Cls domain_chr))
    (Seq (Cls (\<lambda>c. c = 0x2E))
    (Seq (Cls is_alpha) (Seq (Cls is_alpha) (Star (Cls is_alpha)))))))"

text \<open>
  \<^verbatim>\<open>
  def validate_email(self, email):
      if not email:
          return False
      pattern = r'^[a-zA-Z0-9._%+-]+@[a-zA-Z0-9.-]+\.[a-zA-Z]{2,}$'
      return bool(re.match(pattern, email.strip()))
  \<close>
\<close>

fun validate_email :: "pyval \<Rightarrow> bool" where
  "validate_email PyNone = False"
| "validate_email (PyStr email) =
     (if email = [] then False else re_match_anchored email_pattern (py_strip email))"

text \<open>The text after the last full stop of a string: its last dot-separated label.\<close>

definition last_label :: "ustring \<Rightarrow> ustring" where
  "last_label s = rev (takeWhile (\<lambda>c. c \<noteq> 0x2E) (rev s))"

text \<open>The words of an expression, to say what the matcher decides.\<close>

inductive_set star :: "ustring set \<Rightarrow> ustring set" for A :: "ustring set" where
  star_Nil: "[] \<in> star A"
| star_app: "u \<in> A \<Longrightarrow> v \<in> star A \<Longrightarrow> u @ v \<in> star A"

fun lang :: "re \<Rightarrow> ustring set" where
  "lang Nul = {}"
| "lang Eps = {[]}"
| "lang (Cls P) = {[c] | c. P c}"
| "lang (Seq r s) = {u @ v | u v. u \<in> lang r \<and> v \<in> lang s}"
| "lang (Alt r s) = lang r \<union> lang s"
| "lang (Star r) = star (lang r)"

section \<open>Rows and the two passes\<close>

text \<open>
  \<^verbatim>\<open>s.lower()\<close>. The Unicode case table is part of the Python runtime, not of this
  program; written out here are \<open>A\<close> to \<open>Z\<close> and the only two code points above \<open>0x7F\<close>
  whose lowercase contains a code point below \<open>0x80\<close>: the Kelvin sign \<open>0x212A\<close>, which
  becomes the letter \<open>k\<close>, and \<open>0x130\<close>, which becomes \<open>i\<close> followed by \<open>0x307\<close>. Every
  other code point is kept as it is. Python sends such a code point to code points that
  are again above \<open>0x7F\<close> and are whitespace only if it was; the passes look at a lowered
  string through its emptiness, through \<open>validate_email\<close> and, once validated, through
  equality, and none of these tells the two apart.
\<close>

definition lower_cp :: "nat \<Rightarrow> ustring" where
  "lower_cp c =
     (if 0x41 \<le> c \<and> c \<le> 0x5A then [c + 0x20]
      else if c = 0x212A then [0x6B]
      else if c = 0x130 then [0x69, 0x307]
      else [c])"

definition py_lower :: "ustring \<Rightarrow> ustring" where
  "py_lower s = concat (map lower_cp s)"

text \<open>
  \<^verbatim>\<open>s.split(sep)\<close> for a separator string: the pieces between the occurrences of
  \<open>sep\<close>, found from left to right, empty pieces kept. (Python raises for an empty
  separator; the program passes the constant \<^verbatim>\<open>', '\<close>.)
\<close>

fun py_split_sep :: "ustring \<Rightarrow> ustring \<Rightarrow> ustring list" where
  "py_split_sep sep [] = [[]]"
| "py_split_sep sep (c # cs) =
     (if sep \<noteq> [] \<and> take (length sep) (c # cs) = sep
      then [] # py_split_sep sep (drop (length sep) (c # cs))
      else (case py_split_sep sep cs of [] \<Rightarrow> [[c]] | w # ws \<Rightarrow> (c # w) # ws))"

text \<open>
  The exceptions the two passes can raise on a parsed file: \<^verbatim>\<open>.strip()\<close> on a cell
  that is \<^verbatim>\<open>None\<close>, and \<^verbatim>\<open>len(headers)\<close> or \<^verbatim>\<open>'Email' in available_columns\<close>
  when the file is empty and \<^verbatim>\<open>reader.fieldnames\<close> is \<^verbatim>\<open>None\<close>.
\<close>

datatype error = AttributeError | TypeError

text \<open>
  One row of \<^verbatim>\<open>csv.DictReader\<close>: a dictionary from column names to cells. What the
  reader yields for a file is its \<^verbatim>\<open>fieldnames\<close> and the rows in file order. (The
  reader also stores the surplus fields of a long row under the key \<^verbatim>\<open>None\<close>; no
  lookup of the program uses that key.)
\<close>

type_synonym row = "ustring \<rightharpoonup> pyval"

record csv_file =
  fieldnames :: "ustring list option"
  rows :: "row list"

text \<open>\<^verbatim>\<open>row.get(key, '')\<close>\<close>

definition row_get :: "row \<Rightarrow> ustring \<Rightarrow> pyval" where
  "row_get r key = (case r key of None \<Rightarrow> PyStr [] | Some v \<Rightarrow> v)"

text \<open>\<^verbatim>\<open>v.strip()\<close> on a cell\<close>

fun strip_cell :: "pyval \<Rightarrow> error + ustring" where
  "strip_cell PyNone = Inl AttributeError"
| "strip_cell (PyStr s) = Inr (py_strip s)"

text \<open>
  The analysis pass. Its local variables \<^verbatim>\<open>emails_seen\<close> and \<^verbatim>\<open>tags_counter\<close>
  (a \<^verbatim>\<open>Counter\<close>) and the counters of the object:
\<close>

record analysis =
  emails_seen :: "ustring list"
  tags_counter :: "ustring \<rightharpoonup> int"
  a_stats :: stats

text \<open>
  \<^verbatim>\<open>
  for tag in cleaned.split(', '):
      if tag:
          tags_counter[tag] += 1
  \<close>
\<close>

fun count_tags :: "ustring list \<Rightarrow> (ustring \<rightharpoonup> int) \<Rightarrow> (ustring \<rightharpoonup> int)" where
  "count_tags [] m = m"
| "count_tags (tag # tags) m =
     count_tags tags
       (if tag \<noteq> [] then m(tag \<mapsto> (case m tag of None \<Rightarrow> 0 | Some n \<Rightarrow> n) + 1) else m)"

text \<open>
  The body of the loop of \<^verbatim>\<open>analyze_input\<close>:
  \<^verbatim>\<open>
  for row in reader:
      self.stats['total_rows'] += 1
      email = row.get('Email Address', '').strip().lower()
      if email and self.validate_email(email):
          emails_seen.append(email)
          tags = row.get('TAGS', '').strip()
          if tags:
              cleaned = self.clean_tags(tags)
              for tag in cleaned.split(', '):
                  if tag:
                      tags_counter[tag] += 1
      elif email:
          self.stats['invalid_emails'] += 1
  \<close>
\<close>

definition analyze_row :: "analysis \<Rightarrow> row \<Rightarrow> error + analysis" where
  "analyze_row a r =
     (let st1 = (a_stats a)\<lparr>total_rows := total_rows (a_stats a) + 1\<rparr> in
      case strip_cell (row_get r (ustr ''Email Address'')) of
        Inl e \<Rightarrow> Inl e
      | Inr stripped \<Rightarrow>
          let email = py_lower stripped in
          if email \<noteq> [] \<and> validate_email (PyStr email) then
            (case strip_cell (row_get r (ustr ''TAGS'')) of
               Inl e \<Rightarrow> Inl e
             | Inr tags \<Rightarrow>
                 if tags \<noteq> [] then
                   (case clean_tags st1 (PyStr tags) of
                      (cleaned, st2) \<Rightarrow>
                        Inr \<lparr>emails_seen = emails_seen a @ [email],
                             tags_counter =
                               count_tags (py_split_sep (ustr '', '') cleaned) (tags_counter a),
                             a_stats = st2\<rparr>)
                 else Inr \<lparr>emails_seen = emails_seen a @ [email],
                           tags_counter = tags_counter a, a_stats = st1\<rparr>)
          else if email \<noteq> [] then
            Inr (a\<lparr>a_stats := st1\<lparr>invalid_emails := invalid_emails st1 + 1\<rparr>\<rparr>)
          else Inr (a\<lparr>a_stats := st1\<rparr>))"

fun analyze_rows :: "analysis \<Rightarrow> row list \<Rightarrow> error + analysis" where
  "analyze_rows a [] = Inr a"
| "analyze_rows a (r # rs) =
     (case analyze_row a r of Inl e \<Rightarrow> Inl e | Inr a' \<Rightarrow> analyze_rows a' rs)"

text \<open>
  \<^verbatim>\<open>
  email_counts = Counter(emails_seen)
  duplicates = {email: count for email, count in email_counts.items() if count > 1}
  self.stats['duplicates'] = len(duplicates)
  \<close>
\<close>

definition count_duplicates :: "ustring list \<Rightarrow> int" where
  "count_duplicates es = int (length (filter (\<lambda>e. 1 < count_list es e) (remdups es)))"

text \<open>
  \<^verbatim>\<open>analyze_input\<close>, from the counters of the object and the parsed file to the
  values the pass ends with. (Printing is left out; the pass prints
  \<^verbatim>\<open>len(emails_seen)\<close> as the number of valid emails and
  \<^verbatim>\<open>self.stats['invalid_emails']\<close> as the number of invalid ones.)
\<close>

definition analyze_input :: "stats \<Rightarrow> csv_file \<Rightarrow> error + analysis" where
  "analyze_input st f =
     (case fieldnames f of
        None \<Rightarrow> Inl TypeError
      | Some headers \<Rightarrow>
          (case analyze_rows \<lparr>emails_seen = [], tags_counter = Map.empty, a_stats = st\<rparr> (rows f) of
             Inl e \<Rightarrow> Inl e
           | Inr a \<Rightarrow>
               Inr (a\<lparr>a_stats := (a_stats a)\<lparr>duplicates := count_duplicates (emails_seen a)\<rparr>\<rparr>)))"

text \<open>
  The conversion pass. The source columns are chosen once, before the loop:
  \<^verbatim>\<open>
  column_mapping = {'Email': 'Email Address', 'First Name': 'First Name',
                    'Last Name': 'Last Name', 'Tags': 'TAGS'}
  if 'Email' in available_columns:
      column_mapping['Email'] = 'Email'
  if 'Tags' in available_columns:
      column_mapping['Tags'] = 'Tags'
  \<close>
\<close>

record columns =
  col_email :: ustring
  col_first :: ustring
  col_last :: ustring
  col_tags :: ustring

definition column_mapping :: "ustring list \<Rightarrow> columns" where
  "column_mapping available_columns =
     \<lparr>col_email = (if ustr ''Email'' \<in> set available_columns
                    then ustr ''Email'' else ustr ''Email Address''),
      col_first = ustr ''First Name'',
      col_last = ustr ''Last Name'',
      col_tags = (if ustr ''Tags'' \<in> set available_columns
                   then ustr ''Tags'' else ustr ''TAGS'')\<rparr>"

text \<open>
  A row of the output file, with the four fields of \<^verbatim>\<open>fieldnames\<close>, and the state
  of the loop: the set \<^verbatim>\<open>emails_processed\<close>, the rows written so far and the counters.
\<close>

record out_row =
  Email :: ustring
  First_Name :: ustring
  Last_Name :: ustring
  Tags :: ustring

record conversion =
  emails_processed :: "ustring set"
  written :: "out_row list"
  c_stats :: stats

text \<open>
  The body of the loop of \<^verbatim>\<open>convert\<close>:
  \<^verbatim>\<open>
  for row in reader:
      email = row.get(column_mapping['Email'], '').strip()
      if not email or not self.validate_email(email):
          self.stats['skipped'] += 1
          continue
      email_lower = email.lower()
      if remove_duplicates and email_lower in emails_processed:
          self.stats['skipped'] += 1
          continue
      emails_processed.add(email_lower)
      clean_row = {
          'Email': email,
          'First Name': self.clean_name(row.get(column_mapping['First Name'], '')),
          'Last Name': self.clean_name(row.get(column_mapping['Last Name'], '')),
          'Tags': self.clean_tags(row.get(column_mapping['Tags'], ''))
      }
      writer.writerow(clean_row)
      self.stats['processed'] += 1
  \<close>
\<close>

definition convert_row :: "bool \<Rightarrow> columns \<Rightarrow> conversion \<Rightarrow> row \<Rightarrow> error + conversion" where
  "convert_row remove_duplicates cm s r =
     (case strip_cell (row_get r (col_email cm)) of
        Inl e \<Rightarrow> Inl e
      | Inr email \<Rightarrow>
          if email = [] \<or> \<not> validate_email (PyStr email) then
            Inr (s\<lparr>c_stats := (c_stats s)\<lparr>skipped := skipped (c_stats s) + 1\<rparr>\<rparr>)
          else
            let email_lower = py_lower email in
            if remove_duplicates \<and> email_lower \<in> emails_processed s then
              Inr (s\<lparr>c_stats := (c_stats s)\<lparr>skipped := skipped (c_stats s) + 1\<rparr>\<rparr>)
            else
              (case clean_tags (c_stats s) (row_get r (col_tags cm)) of
                 (tags, st1) \<Rightarrow>
                   Inr \<lparr>emails_processed = insert email_lower (emails_processed s),
                        written = written s @
                          [\<lparr>Email = email,
                            First_Name = clean_name (row_get r (col_first cm)),
                            Last_Name = clean_name (row_get r (col_last cm)),
                            Tags = tags\<rparr>],
                        c_stats = st1\<lparr>processed := processed st1 + 1\<rparr>\<rparr>))"

fun convert_rows :: "bool \<Rightarrow> columns \<Rightarrow> conversion \<Rightarrow> row list \<Rightarrow> error + conversion" where
  "convert_rows remove_duplicates cm s [] = Inr s"
| "convert_rows remove_duplicates cm s (r # rs) =
     (case convert_row remove_duplicates cm s r of
        Inl e \<Rightarrow> Inl e
      | Inr s' \<Rightarrow> convert_rows remove_duplicates cm s' rs)"

text \<open>
  \<^verbatim>\<open>convert(remove_duplicates)\<close>, from the counters of the object and the parsed file
  to the rows written after the header and the counters at the end. (The pass prints
  the counters \<^verbatim>\<open>processed\<close>, \<^verbatim>\<open>skipped\<close> and \<^verbatim>\<open>tags_cleaned\<close>.)
\<close>

definition convert :: "bool \<Rightarrow> stats \<Rightarrow> csv_file \<Rightarrow> error + conversion" where
  "convert remove_duplicates st f =
     (case fieldnames f of
        None \<Rightarrow> Inl TypeError
      | Some available_columns \<Rightarrow>
          convert_rows remove_duplicates (column_mapping available_columns)
            \<lparr>emails_processed = {}, written = [], c_stats = st\<rparr> (rows f))"

text \<open>
  \<^verbatim>\<open>main\<close> without \<^verbatim>\<open>--analyze-only\<close>: one object, the analysis pass, then the
  conversion pass on the counters the analysis left.
  \<^verbatim>\<open>
  converter = MailChimpToConvertKit(args.input_file, args.output, args.verbose)
  converter.analyze_input()
  if not args.analyze_only:
      output_file = converter.convert(remove_duplicates=not args.keep_duplicates)
  \<close>
\<close>

definition main_run :: "bool \<Rightarrow> csv_file \<Rightarrow> error + analysis \<times> conversion" where
  "main_run keep_duplicates f =
     (case analyze_input init_stats f of
        Inl e \<Rightarrow> Inl e
      | Inr a \<Rightarrow>
          (case convert (\<not> keep_duplicates) (a_stats a) f of
             Inl e \<Rightarrow> Inl e
           | Inr c \<Rightarrow> Inr (a, c)))"

text \<open>
  The tests the two loops make on a row, named so that claims can count rows by them.
  \<open>row_email col r\<close> is the trimmed cell of column \<open>col\<close> (the empty string for a cell
  that is \<^verbatim>\<open>None\<close>, on which both passes raise). \<open>conv_accepts\<close> is the negation of the
  first guard of the conversion loop; \<open>ana_valid\<close> and \<open>ana_invalid\<close> are the conditions
  of the two branches of the analysis loop.
\<close>

definition row_email :: "ustring \<Rightarrow> row \<Rightarrow> ustring" where
  "row_email col r = (case row_get r col of PyNone \<Rightarrow> [] | PyStr s \<Rightarrow> py_strip s)"








text \<open>Files for the examples below.\<close>

definition two_row_file :: "ustring \<Rightarrow> ustring \<Rightarrow> csv_file" where
  "two_row_file email1 email2 =
     \<lparr>fieldnames = Some [ustr ''Email Address''],
      rows = [[ustr ''Email Address'' \<mapsto> PyStr email1],
              [ustr ''Email Address'' \<mapsto> PyStr email2]]\<rparr>"

definition one_row_file :: "ustring \<Rightarrow> ustring \<Rightarrow> ustring \<Rightarrow> csv_file" where
  "one_row_file email_column email tags =
     \<lparr>fieldnames = Some [email_column, ustr ''TAGS''],
      rows = [map_of [(email_column, PyStr email), (ustr ''TAGS'', PyStr tags)]]\<rparr>"

text \<open>
  A file whose only row is shorter than its header:
  \<^verbatim>\<open>
  First Name,Email Address
  Bob
  \<close>
  \<^verbatim>\<open>csv.DictReader\<close> gives each field the row lacks the value \<^verbatim>\<open>restval\<close>, which
  is \<^verbatim>\<open>None\<close>.
\<close>

definition short_row_file :: csv_file where
  "short_row_file =
     \<lparr>fieldnames = Some [ustr ''First Name'', ustr ''Email Address''],
      rows = [map_of [(ustr ''First Name'', PyStr (ustr ''Bob'')),
                      (ustr ''Email Address'', PyNone)]]\<rparr>"

section \<open>Facts about the string functions\<close>

lemma ustr_Nil [simp]: "ustr [] = []"
  by (simp add: ustr_def)

lemma ustr_Cons [simp]: "ustr (c # cs) = of_char c # ustr cs"
  by (simp add: ustr_def)

lemma split_on_not_Nil [simp]: "split_on P s \<noteq> []"
  by (cases s) (auto split: list.splits)

lemma split_on_pieces: "\<forall>w \<in> set (split_on P s). \<forall>c \<in> set w. \<not> P c"
  by (induction s) (auto split: list.splits)

lemma split_on_append:
  "\<forall>c \<in> set u. \<not> P c \<Longrightarrow> split_on P (u @ v) = (u @ hd (split_on P v)) # tl (split_on P v)"
  by (induction u) auto

lemma split_on_join:
  "P x \<Longrightarrow> ws \<noteq> [] \<Longrightarrow> \<forall>w \<in> set ws. \<forall>c \<in> set w. \<not> P c \<Longrightarrow> split_on P (py_join [x] ws) = ws"
proof (induction "[x]" ws rule: py_join.induct)
  case 1
  then show ?case by simp
next
  case (2 w)
  then show ?case using split_on_append [of w P "[]"] by simp
next
  case (3 w y ys)
  then have "split_on P (py_join [x] (y # ys)) = y # ys" by simp
  moreover have "\<forall>c \<in> set w. \<not> P c" using 3 by simp
  ultimately show ?case
    using split_on_append [of w P "x # py_join [x] (y # ys)"] \<open>P x\<close> by simp
qed

lemma wordlist_py_split: "wordlist (py_split s)"
  unfolding wordlist_def py_split_def using split_on_pieces [of py_isspace s] by auto

lemma py_split_join: "wordlist ws \<Longrightarrow> py_split (py_join [0x20] ws) = ws"
proof (cases "ws = []")
  case True
  then show ?thesis by (simp add: py_split_def)
next
  case False
  assume w: "wordlist ws"
  have sp: "py_isspace 0x20" by (simp add: py_isspace_def)
  from w have "\<forall>w \<in> set ws. \<forall>c \<in> set w. \<not> py_isspace c" by (simp add: wordlist_def)
  then have "split_on py_isspace (py_join [0x20] ws) = ws"
    using split_on_join [of py_isspace "0x20" ws] sp False by simp
  moreover from w have "filter (\<lambda>w. w \<noteq> []) ws = ws" by (simp add: wordlist_def)
  ultimately show ?thesis by (simp add: py_split_def)
qed

lemma py_join_Nil_iff: "\<forall>w \<in> set ws. w \<noteq> [] \<Longrightarrow> py_join sep ws = [] \<longleftrightarrow> ws = []"
  by (induction sep ws rule: py_join.induct) auto

lemma hd_py_join: "ws \<noteq> [] \<Longrightarrow> hd ws \<noteq> [] \<Longrightarrow> hd (py_join sep ws) = hd (hd ws)"
  by (induction sep ws rule: py_join.induct) auto

lemma last_py_join:
  "ws \<noteq> [] \<Longrightarrow> \<forall>w \<in> set ws. w \<noteq> [] \<Longrightarrow> last (py_join sep ws) = last (last ws)"
proof (induction sep ws rule: py_join.induct)
  case (3 sep x y ys)
  then have "py_join sep (y # ys) \<noteq> []" using py_join_Nil_iff [of "y # ys" sep] by simp
  with 3 show ?case by simp
qed simp_all

lemma adjacent_ws_skip: "\<forall>c \<in> set w. \<not> py_isspace c \<Longrightarrow> adjacent_ws (w @ r) = adjacent_ws r"
proof (induction w)
  case Nil
  then show ?case by simp
next
  case (Cons a w)
  then have "adjacent_ws (w @ r) = adjacent_ws r" and "\<not> py_isspace a" by simp_all
  then show ?case by (cases "w @ r") auto
qed

lemma adjacent_ws_join: "wordlist ws \<Longrightarrow> \<not> adjacent_ws (py_join [0x20] ws)"
proof (induction "[0x20::nat]" ws rule: py_join.induct)
  case 1
  then show ?case by simp
next
  case (2 w)
  then show ?case using adjacent_ws_skip [of w "[]"] by (simp add: wordlist_def)
next
  case (3 w y ys)
  then have ih: "\<not> adjacent_ws (py_join [0x20] (y # ys))" by (simp add: wordlist_def)
  from 3 have y: "y \<noteq> []" "\<not> py_isspace (hd y)" by (auto simp: wordlist_def)
  then have "hd (py_join [0x20] (y # ys)) = hd y" using hd_py_join [of "y # ys"] by simp
  moreover have "py_join [0x20] (y # ys) \<noteq> []" using y by (cases ys) auto
  ultimately have "\<not> adjacent_ws (0x20 # py_join [0x20] (y # ys))"
    using ih y by (cases "py_join [0x20] (y # ys)") auto
  moreover from 3 have "\<forall>c \<in> set w. \<not> py_isspace c" by (simp add: wordlist_def)
  ultimately show ?case using adjacent_ws_skip [of w "0x20 # py_join [0x20] (y # ys)"] by simp
qed

lemma adjacent_ws_decomp: "py_isspace a \<Longrightarrow> py_isspace b \<Longrightarrow> adjacent_ws (u @ a # b # v)"
  by (induction u rule: adjacent_ws.induct) auto

lemma clean_name_eq: "clean_name (PyStr s) = py_join [0x20] (py_split s)"
  by (simp add: py_split_def)

section \<open>The matcher decides the language of the expression\<close>

lemma nullable_lang: "nullable r \<longleftrightarrow> [] \<in> lang r"
  by (induction r) (auto intro: star_Nil)

lemma star_Cons:
  "x \<in> star A \<Longrightarrow> x = c # w \<Longrightarrow> \<exists>u v. w = u @ v \<and> c # u \<in> A \<and> v \<in> star A"
proof (induction arbitrary: w rule: star.induct)
  case star_Nil
  then show ?case by simp
next
  case (star_app u v)
  show ?case
  proof (cases u)
    case Nil
    with star_app show ?thesis by simp
  next
    case (Cons a u')
    with star_app.prems have "a = c" and "w = u' @ v" by simp_all
    with star_app.hyps Cons show ?thesis by blast
  qed
qed

lemma star_Cons_iff:
  "c # w \<in> star A \<longleftrightarrow> (\<exists>u v. w = u @ v \<and> c # u \<in> A \<and> v \<in> star A)"
proof
  assume "c # w \<in> star A"
  then show "\<exists>u v. w = u @ v \<and> c # u \<in> A \<and> v \<in> star A" using star_Cons by blast
next
  assume "\<exists>u v. w = u @ v \<and> c # u \<in> A \<and> v \<in> star A"
  then obtain u v where "w = u @ v" "c # u \<in> A" "v \<in> star A" by blast
  then show "c # w \<in> star A" using star_app [of "c # u" A v] by simp
qed

lemma lang_deriv: "w \<in> lang (deriv c r) \<longleftrightarrow> c # w \<in> lang r"
proof (induction r arbitrary: w)
  case (Seq r s)
  show ?case
  proof (cases "nullable r")
    case True
    then have e: "[] \<in> lang r" by (simp add: nullable_lang)
    show ?thesis
    proof
      assume "w \<in> lang (deriv c (Seq r s))"
      with True Seq have "(\<exists>u v. w = u @ v \<and> c # u \<in> lang r \<and> v \<in> lang s) \<or> c # w \<in> lang s"
        by auto
      then show "c # w \<in> lang (Seq r s)"
      proof
        assume "\<exists>u v. w = u @ v \<and> c # u \<in> lang r \<and> v \<in> lang s"
        then obtain u v where "w = u @ v" "c # u \<in> lang r" "v \<in> lang s" by blast
        then have "c # w = (c # u) @ v \<and> c # u \<in> lang r \<and> v \<in> lang s" by simp
        then show ?thesis by (simp del: append_Cons) blast
      next
        assume "c # w \<in> lang s"
        with e have "c # w = [] @ (c # w) \<and> [] \<in> lang r \<and> c # w \<in> lang s" by simp
        then show ?thesis by (simp del: append_Nil) blast
      qed
    next
      assume "c # w \<in> lang (Seq r s)"
      then obtain u v where uv: "c # w = u @ v" "u \<in> lang r" "v \<in> lang s" by auto
      show "w \<in> lang (deriv c (Seq r s))"
      proof (cases u)
        case Nil
        with uv have "c # w \<in> lang s" by simp
        with True Seq show ?thesis by simp
      next
        case (Cons a u')
        with uv have "w = u' @ v" "c # u' \<in> lang r" by simp_all
        with uv(3) True Seq show ?thesis by auto
      qed
    qed
  next
    case False
    then have e: "[] \<notin> lang r" by (simp add: nullable_lang)
    show ?thesis
    proof
      assume "w \<in> lang (deriv c (Seq r s))"
      with False Seq obtain u v where "w = u @ v" "c # u \<in> lang r" "v \<in> lang s" by auto
      then have "c # w = (c # u) @ v \<and> c # u \<in> lang r \<and> v \<in> lang s" by simp
      then show "c # w \<in> lang (Seq r s)" by (simp del: append_Cons) blast
    next
      assume "c # w \<in> lang (Seq r s)"
      then obtain u v where uv: "c # w = u @ v" "u \<in> lang r" "v \<in> lang s" by auto
      with e obtain u' where "u = c # u'" "w = u' @ v" by (cases u) auto
      with uv False Seq show "w \<in> lang (deriv c (Seq r s))" by auto
    qed
  qed
next
  case (Star r)
  show ?case using Star by (auto simp: star_Cons_iff)
qed auto

lemma matches_lang: "matches r w \<longleftrightarrow> w \<in> lang r"
  unfolding matches_def
  by (induction w arbitrary: r) (simp_all add: nullable_lang lang_deriv)

lemma star_Cls: "w \<in> star {[c] |c. P c} \<longleftrightarrow> (\<forall>c \<in> set w. P c)"
proof
  assume "w \<in> star {[c] |c. P c}"
  then show "\<forall>c \<in> set w. P c" by (induction rule: star.induct) auto
next
  assume "\<forall>c \<in> set w. P c"
  then show "w \<in> star {[c] |c. P c}"
  proof (induction w)
    case Nil
    show ?case by (rule star_Nil)
  next
    case (Cons a w)
    then have "[a] \<in> {[c] |c. P c}" and "w \<in> star {[c] |c. P c}" by simp_all
    then show ?case using star_app [of "[a]" "{[c] |c. P c}" w] by simp
  qed
qed

lemma lang_Seq_Cls: "w \<in> lang (Seq (Cls P) r) \<longleftrightarrow> (\<exists>c v. w = c # v \<and> P c \<and> v \<in> lang r)"
proof
  assume "w \<in> lang (Seq (Cls P) r)"
  then show "\<exists>c v. w = c # v \<and> P c \<and> v \<in> lang r" by auto
next
  assume "\<exists>c v. w = c # v \<and> P c \<and> v \<in> lang r"
  then obtain c v where "w = [c] @ v" "[c] \<in> lang (Cls P)" "v \<in> lang r" by auto
  then show "w \<in> lang (Seq (Cls P) r)" unfolding lang.simps(4) by blast
qed

lemma lang_re_plus_Cls: "w \<in> lang (re_plus (Cls P)) \<longleftrightarrow> w \<noteq> [] \<and> (\<forall>c \<in> set w. P c)"
  unfolding re_plus_def lang_Seq_Cls by (cases w) (auto simp: star_Cls)

lemma lang_two_or_more:
  "w \<in> lang (Seq (Cls P) (Seq (Cls P) (Star (Cls P)))) \<longleftrightarrow> 2 \<le> length w \<and> (\<forall>c \<in> set w. P c)"
proof (cases w)
  case Nil
  then show ?thesis unfolding lang_Seq_Cls by simp
next
  case (Cons a w')
  then show ?thesis unfolding lang_Seq_Cls by (cases w') (auto simp: star_Cls)
qed

lemma lang_email_pattern:
  "w \<in> lang email_pattern \<longleftrightarrow>
     (\<exists>l d t. w = l @ [0x40] @ d @ [0x2E] @ t \<and>
        l \<noteq> [] \<and> (\<forall>c \<in> set l. local_chr c) \<and>
        d \<noteq> [] \<and> (\<forall>c \<in> set d. domain_chr c) \<and>
        2 \<le> length t \<and> (\<forall>c \<in> set t. is_alpha c))"
proof -
  let ?T = "Seq (Cls is_alpha) (Seq (Cls is_alpha) (Star (Cls is_alpha)))"
  have "w \<in> lang email_pattern \<longleftrightarrow>
        (\<exists>l x. w = l @ x \<and> l \<in> lang (re_plus (Cls local_chr)) \<and>
          (\<exists>y. x = [0x40] @ y \<and>
            (\<exists>d z. y = d @ z \<and> d \<in> lang (re_plus (Cls domain_chr)) \<and>
              (\<exists>t. z = [0x2E] @ t \<and> t \<in> lang ?T))))"
    unfolding email_pattern_def lang.simps(4) [of "re_plus (Cls local_chr)"]
      lang.simps(4) [of "re_plus (Cls domain_chr)"] lang.simps(4) [of "Cls (\<lambda>c. c = 0x40)"]
      lang.simps(4) [of "Cls (\<lambda>c. c = 0x2E)"] lang.simps(3)
    by blast
  also have "\<dots> \<longleftrightarrow>
     (\<exists>l d t. w = l @ [0x40] @ d @ [0x2E] @ t \<and> l \<in> lang (re_plus (Cls local_chr)) \<and>
        d \<in> lang (re_plus (Cls domain_chr)) \<and> t \<in> lang ?T)"
    by blast
  finally show ?thesis
    unfolding lang_re_plus_Cls lang_two_or_more by blast
qed

section \<open>Facts about stripping and the validator\<close>

lemma last_dropWhile: "dropWhile P xs \<noteq> [] \<Longrightarrow> last (dropWhile P xs) = last xs"
  by (induction xs) (auto split: if_splits)

lemma py_strip_Nil [simp]: "py_strip [] = []"
  by (simp add: py_strip_def)

lemma set_py_strip: "set (py_strip s) \<subseteq> set s"
proof -
  have "set (py_strip s) \<subseteq> set (dropWhile py_isspace s)"
    unfolding py_strip_def using set_dropWhileD [of _ py_isspace "rev (dropWhile py_isspace s)"] by auto
  also have "\<dots> \<subseteq> set s" using set_dropWhileD [of _ py_isspace s] by auto
  finally show ?thesis .
qed

lemma py_strip_ends:
  assumes "py_strip s \<noteq> []"
  shows "\<not> py_isspace (hd (py_strip s))" and "\<not> py_isspace (last (py_strip s))"
proof -
  let ?t = "dropWhile py_isspace s"
  let ?u = "dropWhile py_isspace (rev ?t)"
  from assms have u: "?u \<noteq> []" by (simp add: py_strip_def)
  have t: "?t \<noteq> []"
  proof
    assume "?t = []"
    then have "?u = []" by (simp only: rev.simps dropWhile.simps)
    with u show False ..
  qed
  have "last (py_strip s) = hd ?u" using u by (simp add: py_strip_def last_rev)
  then show "\<not> py_isspace (last (py_strip s))" using hd_dropWhile [OF u] by simp
  have "hd (py_strip s) = last ?u" using u by (simp add: py_strip_def hd_rev)
  also have "\<dots> = last (rev ?t)" using u by (rule last_dropWhile)
  also have "\<dots> = hd ?t" using t by (simp add: last_rev)
  finally show "\<not> py_isspace (hd (py_strip s))" using hd_dropWhile [OF t] by simp
qed



lemma email_not_Nil: "[] \<notin> lang email_pattern"
  by (simp add: lang_email_pattern)

lemma re_match_stripped: "re_match_anchored r (py_strip s) = matches r (py_strip s)"
proof (cases "py_strip s = []")
  case True
  then show ?thesis by (simp add: re_match_anchored_def)
next
  case False
  have "py_isspace 0x0A" by (simp add: py_isspace_def)
  with py_strip_ends(2) [OF False] have "last (py_strip s) \<noteq> 0x0A" by metis
  then show ?thesis by (simp add: re_match_anchored_def)
qed

lemma validate_email_lang: "validate_email (PyStr s) \<longleftrightarrow> py_strip s \<in> lang email_pattern"
proof (cases "s = []")
  case True
  then show ?thesis using email_not_Nil by simp
next
  case False
  then show ?thesis by (simp add: re_match_stripped matches_lang)
qed

lemma validate_email_iff:
  "validate_email (PyStr s) \<longleftrightarrow>
     (\<exists>l d t. py_strip s = l @ [0x40] @ d @ [0x2E] @ t \<and>
        l \<noteq> [] \<and> (\<forall>c \<in> set l. local_chr c) \<and>
        d \<noteq> [] \<and> (\<forall>c \<in> set d. domain_chr c) \<and>
        2 \<le> length t \<and> (\<forall>c \<in> set t. is_alpha c))"
  unfolding validate_email_lang lang_email_pattern ..

lemma takeWhile_upto: "\<forall>c \<in> set xs. P c \<Longrightarrow> \<not> P y \<Longrightarrow> takeWhile P (xs @ y # ys) = xs"
  by (induction xs) auto

lemma is_alpha_not_dot: "is_alpha c \<Longrightarrow> c \<noteq> 0x2E"
  by (auto simp: is_alpha_def)

section \<open>Facts about the tag cleaner\<close>

lemma set_py_replace_gen: "set (py_replace old new s) \<subseteq> set s \<union> set new"
proof (induction old new s rule: py_replace.induct)
  case (1 old new)
  then show ?case by auto
next
  case (2 old new c cs)
  show ?case
  proof (cases "old = []")
    case True
    with 2(1) show ?thesis by auto
  next
    case ne: False
    show ?thesis
    proof (cases "take (length old) (c # cs) = old")
      case True
      from 2(2) [OF ne True]
      have "set (py_replace old new (drop (length old) (c # cs))) \<subseteq>
            set (drop (length old) (c # cs)) \<union> set new" .
      moreover have "set (drop (length old) (c # cs)) \<subseteq> set (c # cs)" by (rule set_drop_subset)
      ultimately have "set (new @ py_replace old new (drop (length old) (c # cs))) \<subseteq>
            set (c # cs) \<union> set new"
        by (simp only: set_append) blast
      moreover have "py_replace old new (c # cs) = new @ py_replace old new (drop (length old) (c # cs))"
        by (simp only: py_replace.simps(2) ne True if_True if_False simp_thms)
      ultimately show ?thesis by (simp only:)
    next
      case False
      from 2(3) [OF ne False] have "set (py_replace old new cs) \<subseteq> set cs \<union> set new" .
      then have "set (c # py_replace old new cs) \<subseteq> set (c # cs) \<union> set new" by auto
      moreover have "py_replace old new (c # cs) = c # py_replace old new cs"
        by (simp only: py_replace.simps(2) ne False if_False simp_thms)
      ultimately show ?thesis by (simp only:)
    qed
  qed
qed

lemma set_py_replace: "set (py_replace old [] s) \<subseteq> set s"
  using set_py_replace_gen [of old "[]" s] by simp

lemma py_replace_single: "py_replace [q] [] s = filter (\<lambda>c. c \<noteq> q) s"
  by (induction s) auto

lemma unquoted_set:
  "set (fold (\<lambda>quote s. py_replace quote [] s) quotes_to_remove s) \<subseteq> set s - {0x22, 0x27}"
proof -
  let ?a = "py_replace [0x22] [] s"
  let ?b = "py_replace [0x27] [] ?a"
  let ?c = "py_replace [0x22] [] ?b"
  let ?d = "py_replace [0x22] [] ?c"
  let ?e = "py_replace [0x2C, 0x20] [] ?d"
  have f: "fold (\<lambda>quote s. py_replace quote [] s) quotes_to_remove s = ?e"
    by (simp only: quotes_to_remove_def fold_simps)
  have a: "set ?a \<subseteq> set s - {0x22}" unfolding py_replace_single by auto
  have b: "set ?b \<subseteq> set ?a - {0x27}" unfolding py_replace_single [of "0x27"] by auto
  have "set ?e \<subseteq> set ?d" by (rule set_py_replace)
  also have "\<dots> \<subseteq> set ?c" by (rule set_py_replace)
  also have "\<dots> \<subseteq> set ?b" by (rule set_py_replace)
  also have "\<dots> \<subseteq> set s - {0x22, 0x27}" using a b by blast
  finally show ?thesis unfolding f .
qed

lemma set_split_on_all: "\<forall>w \<in> set (split_on P s). set w \<subseteq> set s"
proof (induction s)
  case Nil
  then show ?case by simp
next
  case (Cons a s)
  obtain x xs where sp: "split_on P s = x # xs" by (cases "split_on P s") auto
  with Cons have "set x \<subseteq> set s" and "\<forall>w \<in> set xs. set w \<subseteq> set s" by auto
  with sp show ?case by auto
qed

lemma set_split_on: "w \<in> set (split_on P s) \<Longrightarrow> set w \<subseteq> set s"
  using set_split_on_all by blast

lemma set_py_join: "set (py_join sep ws) \<subseteq> set sep \<union> \<Union> (set ` set ws)"
  by (induction sep ws rule: py_join.induct) auto

lemma set_py_split: "w \<in> set (py_split s) \<Longrightarrow> set w \<subseteq> set s"
  using set_split_on [of w py_isspace s] by (simp add: py_split_def)

lemma set_cleaned_tags: "t \<in> set (cleaned_tags s) \<Longrightarrow> set t \<subseteq> (set s - {0x22, 0x27}) \<union> {0x20}"
proof -
  let ?u = "fold (\<lambda>quote s. py_replace quote [] s) quotes_to_remove (py_strip s)"
  assume "t \<in> set (cleaned_tags s)"
  then obtain tag where tag: "tag \<in> set (split_on is_delim ?u)"
    and t: "t = py_join [0x20] (py_split tag)"
    by (auto simp: cleaned_tags_def)
  have "set t \<subseteq> {0x20} \<union> \<Union> (set ` set (py_split tag))"
    unfolding t using set_py_join [of "[0x20]" "py_split tag"] by simp
  also have "\<dots> \<subseteq> {0x20} \<union> set tag" using set_py_split [of _ tag] by auto
  also have "\<dots> \<subseteq> {0x20} \<union> set ?u" using set_split_on [OF tag] by auto
  also have "\<dots> \<subseteq> {0x20} \<union> (set (py_strip s) - {0x22, 0x27})"
    using unquoted_set [of "py_strip s"] by auto
  also have "\<dots> \<subseteq> (set s - {0x22, 0x27}) \<union> {0x20}" using set_py_strip [of s] by auto
  finally show ?thesis .
qed


text \<open>
  What the tag cleaner does remove: the straight double quote and the apostrophe occur
  in no output, and every code point of the output is a code point of the input, a
  space or a comma.
\<close>

lemma clean_tags_straight_quotes:
  "set (fst (clean_tags st v)) \<subseteq> (case v of PyNone \<Rightarrow> {} | PyStr s \<Rightarrow> set s - {0x22, 0x27}) \<union> {0x20, 0x2C}"
proof (cases v)
  case PyNone
  then show ?thesis by simp
next
  case (PyStr s)
  have "set (py_join [0x2C, 0x20] (cleaned_tags s)) \<subseteq> {0x2C, 0x20} \<union> \<Union> (set ` set (cleaned_tags s))"
    using set_py_join [of "[0x2C, 0x20]" "cleaned_tags s"] by simp
  also have "\<dots> \<subseteq> (set s - {0x22, 0x27}) \<union> {0x20, 0x2C}"
    using set_cleaned_tags [of _ s] by auto
  finally show ?thesis using PyStr by (simp add: Let_def)
qed



lemma split_on_all: "\<forall>c \<in> set w. P c \<Longrightarrow> \<forall>x \<in> set (split_on P w). x = []"
  by (induction w) auto

lemma py_split_blank: "\<forall>c \<in> set w. py_isspace c \<Longrightarrow> py_split w = []"
  using split_on_all [of w py_isspace] by (auto simp: py_split_def filter_empty_conv)

text \<open>
  A tag string made only of separators, straight quotes and whitespace cleans to the
  empty string and leaves the counters as they were.
\<close>

lemma clean_tags_separators_straight_quotes:
  assumes "\<forall>c \<in> set s. is_delim c \<or> c = 0x22 \<or> c = 0x27 \<or> py_isspace c"
  shows "clean_tags st (PyStr s) = ([], st)"
proof -
  let ?u = "fold (\<lambda>quote s. py_replace quote [] s) quotes_to_remove (py_strip s)"
  have u: "\<forall>c \<in> set ?u. is_delim c \<or> py_isspace c"
    using unquoted_set [of "py_strip s"] set_py_strip [of s] assms by auto
  have "py_split tag = []" if "tag \<in> set (split_on is_delim ?u)" for tag
  proof -
    have "\<forall>c \<in> set tag. \<not> is_delim c" using split_on_pieces [of is_delim ?u] that by blast
    moreover have "set tag \<subseteq> set ?u" using set_split_on [OF that] .
    ultimately have "\<forall>c \<in> set tag. py_isspace c" using u by blast
    then show ?thesis by (rule py_split_blank)
  qed
  then have "cleaned_tags s = []"
    by (auto simp: cleaned_tags_def filter_empty_conv)
  then show ?thesis by (simp add: Let_def)
qed

section \<open>Facts about the two loops\<close>

lemma lower_cp_not_Nil [simp]: "lower_cp c \<noteq> []"
  by (simp add: lower_cp_def)

lemma py_lower_Nil_iff [simp]: "py_lower s = [] \<longleftrightarrow> s = []"
  by (cases s) (simp_all add: py_lower_def)

lemma row_email_absent: "r col = None \<Longrightarrow> row_email col r = []"
  by (simp add: row_email_def row_get_def)

lemma row_email_str: "r col = Some (PyStr cell) \<Longrightarrow> row_email col r = py_strip cell"
  by (simp add: row_email_def row_get_def)


lemma analyze_row_blank:
  assumes "row_get r (ustr ''Email Address'') = PyStr cell" and "py_strip cell = []"
  shows "analyze_row a r = Inr (a\<lparr>a_stats := (a_stats a)\<lparr>total_rows := total_rows (a_stats a) + 1\<rparr>\<rparr>)"
  using assms by (simp add: analyze_row_def)

lemma analyze_row_invalid:
  assumes "row_get r (ustr ''Email Address'') = PyStr cell" and "py_strip cell \<noteq> []"
    and "\<not> validate_email (PyStr (py_lower (py_strip cell)))"
  shows "analyze_row a r =
    Inr (a\<lparr>a_stats := (a_stats a)\<lparr>total_rows := total_rows (a_stats a) + 1,
                                   invalid_emails := invalid_emails (a_stats a) + 1\<rparr>\<rparr>)"
  using assms by (simp add: analyze_row_def Let_def)



text \<open>The conversion loop on one row, branch by branch.\<close>

lemma convert_row_None:
  "row_get r (col_email cm) = PyNone \<Longrightarrow> convert_row rd cm s r = Inl AttributeError"
  by (simp add: convert_row_def)

lemma convert_row_reject:
  assumes "row_get r (col_email cm) = PyStr cell"
    and "py_strip cell = [] \<or> \<not> validate_email (PyStr (py_strip cell))"
  shows "convert_row rd cm s r = Inr (s\<lparr>c_stats := (c_stats s)\<lparr>skipped := skipped (c_stats s) + 1\<rparr>\<rparr>)"
  using assms by (auto simp: convert_row_def)

lemma convert_row_duplicate:
  assumes "row_get r (col_email cm) = PyStr cell"
    and "py_strip cell \<noteq> []" and "validate_email (PyStr (py_strip cell))"
    and "rd" and "py_lower (py_strip cell) \<in> emails_processed s"
  shows "convert_row rd cm s r = Inr (s\<lparr>c_stats := (c_stats s)\<lparr>skipped := skipped (c_stats s) + 1\<rparr>\<rparr>)"
  using assms by (simp add: convert_row_def Let_def)

lemma convert_row_emit:
  assumes "row_get r (col_email cm) = PyStr cell"
    and "py_strip cell \<noteq> []" and "validate_email (PyStr (py_strip cell))"
    and "\<not> (rd \<and> py_lower (py_strip cell) \<in> emails_processed s)"
  shows "convert_row rd cm s r =
    Inr \<lparr>emails_processed = insert (py_lower (py_strip cell)) (emails_processed s),
         written = written s @
           [\<lparr>Email = py_strip cell,
             First_Name = clean_name (row_get r (col_first cm)),
             Last_Name = clean_name (row_get r (col_last cm)),
             Tags = fst (clean_tags (c_stats s) (row_get r (col_tags cm)))\<rparr>],
         c_stats = (snd (clean_tags (c_stats s) (row_get r (col_tags cm))))
           \<lparr>processed := processed (snd (clean_tags (c_stats s) (row_get r (col_tags cm)))) + 1\<rparr>\<rparr>"
  using assms by (auto simp: convert_row_def Let_def simp del: clean_tags.simps split: prod.splits)

lemma convert_row_Inr:
  assumes "convert_row rd cm s r = Inr s'"
  obtains cell where "row_get r (col_email cm) = PyStr cell"
proof (cases "row_get r (col_email cm)")
  case PyNone
  from convert_row_None [OF this, of rd s] assms show ?thesis by simp
next
  case (PyStr cell)
  then show ?thesis by (rule that)
qed


lemma convert_row_written:
  assumes "convert_row rd cm s r = Inr s'"
    and "\<forall>out \<in> set (written s). Email out \<noteq> [] \<and> validate_email (PyStr (Email out))"
  shows "\<forall>out \<in> set (written s'). Email out \<noteq> [] \<and> validate_email (PyStr (Email out))"
proof -
  from assms(1) obtain cell where cell: "row_get r (col_email cm) = PyStr cell"
    by (rule convert_row_Inr)
  consider (reject) "py_strip cell = [] \<or> \<not> validate_email (PyStr (py_strip cell))"
    | (dup) "py_strip cell \<noteq> []" "validate_email (PyStr (py_strip cell))"
        "rd" "py_lower (py_strip cell) \<in> emails_processed s"
    | (emit) "py_strip cell \<noteq> []" "validate_email (PyStr (py_strip cell))"
        "\<not> (rd \<and> py_lower (py_strip cell) \<in> emails_processed s)"
    by blast
  then show ?thesis
  proof cases
    case reject
    from assms(1) convert_row_reject [OF cell reject, of rd s]
    have eq: "s' = s\<lparr>c_stats := (c_stats s)\<lparr>skipped := skipped (c_stats s) + 1\<rparr>\<rparr>"
      by simp
    have "written s' = written s" unfolding eq by simp
    with assms(2) show ?thesis by (simp only:)
  next
    case dup
    from assms(1) convert_row_duplicate [OF cell dup]
    have eq: "s' = s\<lparr>c_stats := (c_stats s)\<lparr>skipped := skipped (c_stats s) + 1\<rparr>\<rparr>"
      by simp
    have "written s' = written s" unfolding eq by simp
    with assms(2) show ?thesis by (simp only:)
  next
    case emit
    let ?out = "\<lparr>Email = py_strip cell,
             First_Name = clean_name (row_get r (col_first cm)),
             Last_Name = clean_name (row_get r (col_last cm)),
             Tags = fst (clean_tags (c_stats s) (row_get r (col_tags cm)))\<rparr>"
    let ?s1 = "\<lparr>emails_processed = insert (py_lower (py_strip cell)) (emails_processed s),
         written = written s @ [?out],
         c_stats = (snd (clean_tags (c_stats s) (row_get r (col_tags cm))))
           \<lparr>processed := processed (snd (clean_tags (c_stats s) (row_get r (col_tags cm)))) + 1\<rparr>\<rparr>"
    from assms(1) convert_row_emit [OF cell emit]
    have eq: "s' = ?s1" by (simp del: clean_tags.simps validate_email.simps)
    have w: "written s' = written s @ [?out]" unfolding eq by (simp del: clean_tags.simps)
    have "Email ?out = py_strip cell" by simp
    with emit(1,2) have "Email ?out \<noteq> [] \<and> validate_email (PyStr (Email ?out))"
      by (simp only: simp_thms)
    with assms(2) show ?thesis unfolding w by (simp del: validate_email.simps clean_tags.simps)
  qed
qed


lemma convert_rows_written:
  "convert_rows rd cm s rs = Inr s' \<Longrightarrow>
   \<forall>out \<in> set (written s). Email out \<noteq> [] \<and> validate_email (PyStr (Email out)) \<Longrightarrow>
   \<forall>out \<in> set (written s'). Email out \<noteq> [] \<and> validate_email (PyStr (Email out))"
proof (induction rs arbitrary: s)
  case Nil
  then show ?case by (simp del: validate_email.simps)
next
  case (Cons r rs)
  from Cons.prems(1) obtain s1 where s1: "convert_row rd cm s r = Inr s1"
    and rest: "convert_rows rd cm s1 rs = Inr s'"
    by (cases "convert_row rd cm s r") simp_all
  from convert_row_written [OF s1 Cons.prems(2)] show ?case by (rule Cons.IH [OF rest])
qed

lemma convert_written_valid:
  assumes "convert rd st f = Inr c"
  shows "\<forall>out \<in> set (written c). Email out \<noteq> [] \<and> validate_email (PyStr (Email out))"
proof -
  from assms obtain hs where
    "convert_rows rd (column_mapping hs) \<lparr>emails_processed = {}, written = [], c_stats = st\<rparr> (rows f) = Inr c"
    by (cases "fieldnames f") (simp_all add: convert_def)
  from convert_rows_written [OF this] show ?thesis by simp
qed












section \<open>The name cleaner: claims\<close>

text \<open>
  C10. Name cleaning is idempotent: for every string \<open>s\<close>, cleaning the cleaned name gives
  the cleaned name again. The cleaned name neither starts nor ends with a whitespace
  code point, and no two whitespace code points are adjacent in it.
\<close>

theorem clean_name_idempotent:
  "clean_name (PyStr (clean_name (PyStr s))) = clean_name (PyStr s) \<and>
   (clean_name (PyStr s) \<noteq> [] \<longrightarrow>
      \<not> py_isspace (hd (clean_name (PyStr s))) \<and> \<not> py_isspace (last (clean_name (PyStr s)))) \<and>
   (\<forall>u a b v. clean_name (PyStr s) = u @ a # b # v \<longrightarrow> \<not> (py_isspace a \<and> py_isspace b))"
proof -
  let ?ws = "py_split s"
  let ?out = "py_join [0x20] ?ws"
  have out: "clean_name (PyStr s) = ?out" by (rule clean_name_eq)
  have wl: "wordlist ?ws" by (rule wordlist_py_split)
  have "clean_name (PyStr ?out) = py_join [0x20] (py_split ?out)" by (rule clean_name_eq)
  also have "\<dots> = ?out" using py_split_join [OF wl] by simp
  finally have idem: "clean_name (PyStr ?out) = ?out" .
  have ends: "\<not> py_isspace (hd ?out) \<and> \<not> py_isspace (last ?out)" if ne: "?out \<noteq> []"
  proof -
    from ne have ws: "?ws \<noteq> []" by auto
    then have "hd ?ws \<in> set ?ws" and "last ?ws \<in> set ?ws" by simp_all
    with wl have h: "hd ?ws \<noteq> []" "\<not> py_isspace (hd (hd ?ws))"
      and l: "last ?ws \<noteq> []" "\<not> py_isspace (last (last ?ws))"
      by (auto simp: wordlist_def)
    from wl have ne: "\<forall>w \<in> set ?ws. w \<noteq> []" by (simp add: wordlist_def)
    show ?thesis using hd_py_join [OF ws h(1)] last_py_join [OF ws ne] h(2) l(2) by simp
  qed
  have adj: "\<not> (py_isspace a \<and> py_isspace b)" if "?out = u @ a # b # v" for u a b v
    using adjacent_ws_join [OF wl] adjacent_ws_decomp [of a b u v] that by auto
  show ?thesis unfolding out using idem ends adj by blast
qed

theorem clean_name_idempotent_witness:
  "clean_name (PyStr (ustr ''  Jane   Q.   Public '')) = ustr ''Jane Q. Public'' \<and>
   clean_name (PyStr (ustr ''Jane Q. Public'')) = ustr ''Jane Q. Public'' \<and>
   ustr ''Jane Q. Public'' \<noteq> [] \<and>
   \<not> py_isspace (hd (ustr ''Jane Q. Public'')) \<and> \<not> py_isspace (last (ustr ''Jane Q. Public'')) \<and>
   ustr ''Jane Q. Public'' = ustr ''Jane'' @ 0x20 # 0x51 # ustr ''. Public'' \<and>
   \<not> (py_isspace 0x20 \<and> py_isspace 0x51)"
proof -
  have c: "clean_name (PyStr (ustr ''  Jane   Q.   Public '')) = ustr ''Jane Q. Public''"
    by (simp add: py_split_def py_isspace_def)
  show ?thesis
    using clean_name_idempotent [of "ustr ''  Jane   Q.   Public ''"] unfolding c
    by (simp add: py_isspace_def)
qed

section \<open>The email validator: claims\<close>

text \<open>
  C4. For every string, the validator trims surrounding whitespace and returns true
  exactly when the whole trimmed string is a local part, an \<open>@\<close>, a domain, a full stop
  and a top-level domain, where the local part is a non-empty run of letters, digits
  and \<open>. _ % + -\<close>, the domain a non-empty run of letters, digits, full stops and
  hyphens, and the top-level domain a run of at least two letters. It returns false
  for \<^verbatim>\<open>None\<close>, for a string that is empty after trimming, for every string
  without an \<open>@\<close>, and for every string that has no full stop or whose last
  dot-separated label is shorter than two code points.
\<close>

theorem validate_email_spec:
  "(validate_email (PyStr s) \<longleftrightarrow>
     (\<exists>l d t. py_strip s = l @ [0x40] @ d @ [0x2E] @ t \<and>
        l \<noteq> [] \<and> (\<forall>c \<in> set l. local_chr c) \<and>
        d \<noteq> [] \<and> (\<forall>c \<in> set d. domain_chr c) \<and>
        2 \<le> length t \<and> (\<forall>c \<in> set t. is_alpha c))) \<and>
   \<not> validate_email PyNone \<and>
   (py_strip s = [] \<longrightarrow> \<not> validate_email (PyStr s)) \<and>
   (0x40 \<notin> set s \<longrightarrow> \<not> validate_email (PyStr s)) \<and>
   (0x2E \<notin> set (py_strip s) \<or> length (last_label (py_strip s)) < 2 \<longrightarrow>
      \<not> validate_email (PyStr s))"
proof (intro conjI impI)
  show "validate_email (PyStr s) \<longleftrightarrow>
     (\<exists>l d t. py_strip s = l @ [0x40] @ d @ [0x2E] @ t \<and>
        l \<noteq> [] \<and> (\<forall>c \<in> set l. local_chr c) \<and>
        d \<noteq> [] \<and> (\<forall>c \<in> set d. domain_chr c) \<and>
        2 \<le> length t \<and> (\<forall>c \<in> set t. is_alpha c))"
    by (rule validate_email_iff)
  show "\<not> validate_email PyNone" by simp
  show "\<not> validate_email (PyStr s)" if "py_strip s = []"
    using that email_not_Nil unfolding validate_email_lang by simp
  show "\<not> validate_email (PyStr s)" if "0x40 \<notin> set s"
  proof
    assume "validate_email (PyStr s)"
    then have "0x40 \<in> set (py_strip s)" unfolding validate_email_iff by auto
    with set_py_strip [of s] that show False by auto
  qed
  show "\<not> validate_email (PyStr s)"
    if "0x2E \<notin> set (py_strip s) \<or> length (last_label (py_strip s)) < 2"
  proof
    assume "validate_email (PyStr s)"
    then obtain l d t where w: "py_strip s = l @ [0x40] @ d @ [0x2E] @ t"
      and t: "2 \<le> length t" "\<forall>c \<in> set t. is_alpha c"
      unfolding validate_email_iff by blast
    from w have dot: "0x2E \<in> set (py_strip s)" by simp
    from w have "rev (py_strip s) = rev t @ 0x2E # rev (l @ [0x40] @ d)" by simp
    moreover from t(2) have "\<forall>c \<in> set (rev t). c \<noteq> 0x2E" using is_alpha_not_dot by auto
    ultimately have "takeWhile (\<lambda>c. c \<noteq> 0x2E) (rev (py_strip s)) = rev t"
      using takeWhile_upto [of "rev t" "\<lambda>c. c \<noteq> 0x2E" "0x2E" "rev (l @ [0x40] @ d)"] by simp
    then have "length (last_label (py_strip s)) = length t" by (simp add: last_label_def)
    with t(1) dot that show False by simp
  qed
qed

theorem validate_email_spec_witness:
  "validate_email (PyStr (ustr '' a@b.co '')) \<and>
   py_strip (ustr ''   '') = [] \<and> \<not> validate_email (PyStr (ustr ''   '')) \<and>
   0x40 \<notin> set (ustr ''ab.co'') \<and> \<not> validate_email (PyStr (ustr ''ab.co'')) \<and>
   length (last_label (py_strip (ustr ''a@b.c''))) < 2 \<and> \<not> validate_email (PyStr (ustr ''a@b.c''))"
proof -
  have "\<exists>l d t. py_strip (ustr '' a@b.co '') = l @ [0x40] @ d @ [0x2E] @ t \<and>
        l \<noteq> [] \<and> (\<forall>c \<in> set l. local_chr c) \<and>
        d \<noteq> [] \<and> (\<forall>c \<in> set d. domain_chr c) \<and>
        2 \<le> length t \<and> (\<forall>c \<in> set t. is_alpha c)"
    by (rule exI [of _ "ustr ''a''"], rule exI [of _ "ustr ''b''"], rule exI [of _ "ustr ''co''"])
      (simp add: py_strip_def py_isspace_def local_chr_def domain_chr_def is_alpha_def is_digit_def last_label_def)
  then have 1: "validate_email (PyStr (ustr '' a@b.co ''))"
    using validate_email_spec [of "ustr '' a@b.co ''"] by blast
  have s2: "py_strip (ustr ''   '') = []" by (simp add: py_strip_def py_isspace_def local_chr_def domain_chr_def is_alpha_def is_digit_def last_label_def)
  then have 2: "\<not> validate_email (PyStr (ustr ''   ''))"
    using validate_email_spec [of "ustr ''   ''"] by blast
  have s3: "0x40 \<notin> set (ustr ''ab.co'')" by simp
  then have 3: "\<not> validate_email (PyStr (ustr ''ab.co''))"
    using validate_email_spec [of "ustr ''ab.co''"] by blast
  have s4: "length (last_label (py_strip (ustr ''a@b.c''))) < 2" by (simp add: py_strip_def py_isspace_def local_chr_def domain_chr_def is_alpha_def is_digit_def last_label_def)
  then have 4: "\<not> validate_email (PyStr (ustr ''a@b.c''))"
    using validate_email_spec [of "ustr ''a@b.c''"] by blast
  from 1 s2 2 s3 3 s4 4 show ?thesis by blast
qed


section \<open>The tag cleaner: claims\<close>

text \<open>
  C5. Tag cleaning is idempotent: cleaning a cleaned tag string gives the same string.
  The code does not do this. The fifth element of \<open>quotes_to_remove\<close> is a comma
  followed by a space, which is the separator the cleaner itself puts between tags; a
  second pass deletes it and glues the tags together. Cleaning \<^verbatim>\<open>a,b\<close> gives
  \<^verbatim>\<open>a, b\<close>, and cleaning that gives \<^verbatim>\<open>ab\<close>.
\<close>

theorem clean_tags_twice_differs:
  "fst (clean_tags init_stats (PyStr (ustr ''a,b''))) = ustr ''a, b'' \<and>
   fst (clean_tags init_stats (PyStr (ustr ''a, b''))) = ustr ''ab''"
  by (simp add: cleaned_tags_def quotes_to_remove_def py_strip_def py_split_def py_isspace_def is_delim_def init_stats_def Let_def)

text \<open>
  C6. The output of the tag cleaner contains none of the quote characters: the straight
  double quote, the apostrophe, and the left and right curly single and double quotes.
  The code removes the two straight ones (\<open>clean_tags_straight_quotes\<close>) and keeps the
  four curly ones, which are not in \<open>quotes_to_remove\<close>: a tag between \<open>0x201C\<close> and
  \<open>0x201D\<close>, or between \<open>0x2018\<close> and \<open>0x2019\<close>, comes out as it went in.
\<close>

theorem clean_tags_keeps_curly_quotes:
  "fst (clean_tags init_stats (PyStr [0x201C, 0x56, 0x49, 0x50, 0x201D])) =
     [0x201C, 0x56, 0x49, 0x50, 0x201D] \<and>
   fst (clean_tags init_stats (PyStr [0x2018, 0x41, 0x2019])) = [0x2018, 0x41, 0x2019]"
  by (simp add: cleaned_tags_def quotes_to_remove_def py_strip_def py_split_def py_isspace_def is_delim_def init_stats_def Let_def)

text \<open>
  C8. One call of the tag cleaner adds one to the tags-cleaned counter when some tag
  survives, however many do, and nothing otherwise; in particular a tag string made
  only of separators and quote characters cleans to the empty string and leaves the
  counter alone. The first half holds in the code (\<open>clean_tags_counter\<close>), and so does
  the second for the straight quotes (\<open>clean_tags_separators_straight_quotes\<close>, and
  the second line below). For the curly quotes it does not: a string of separators and
  the quotes \<open>0x201C\<close> and \<open>0x201D\<close> cleans to the two quotes as two tags, and the
  counter goes up.
\<close>

theorem clean_tags_curly_quotes_counted:
  "clean_tags init_stats (PyStr [0x2C, 0x201C, 0x3B, 0x201D, 0x7C]) =
     ([0x201C, 0x2C, 0x20, 0x201D], init_stats\<lparr>tags_cleaned := 1\<rparr>) \<and>
   clean_tags init_stats (PyStr [0x22, 0x2C, 0x3B, 0x7C, 0x27, 0x27, 0x22]) = ([], init_stats)"
  by (simp add: cleaned_tags_def quotes_to_remove_def py_strip_def py_split_def py_isspace_def is_delim_def init_stats_def Let_def)


section \<open>The analysis pass: claims\<close>

text \<open>
  The analysis loop on a row whose email cell is a string, or whose file has no column
  \<^verbatim>\<open>Email Address\<close>. If the email is absent or empty after trimming, the row counts
  neither as valid nor as invalid: the pass adds one to \<open>total_rows\<close> and changes
  nothing else, neither \<open>emails_seen\<close> nor \<open>invalid_emails\<close>. A row whose email is not
  empty and fails validation adds one to \<open>invalid_emails\<close> (and to \<open>total_rows\<close>). The
  email the pass tests is the trimmed cell in lower case.
\<close>

lemma analyze_row_empty_or_invalid:
  "(r (ustr ''Email Address'') = None \<or>
    (\<exists>cell. r (ustr ''Email Address'') = Some (PyStr cell) \<and> py_strip cell = []) \<longrightarrow>
      analyze_row a r =
        Inr (a\<lparr>a_stats := (a_stats a)\<lparr>total_rows := total_rows (a_stats a) + 1\<rparr>\<rparr>)) \<and>
   (\<forall>cell. r (ustr ''Email Address'') = Some (PyStr cell) \<and> py_strip cell \<noteq> [] \<and>
      \<not> validate_email (PyStr (py_lower (py_strip cell))) \<longrightarrow>
      analyze_row a r =
        Inr (a\<lparr>a_stats := (a_stats a)\<lparr>total_rows := total_rows (a_stats a) + 1,
                                       invalid_emails := invalid_emails (a_stats a) + 1\<rparr>\<rparr>))"
proof (intro conjI impI allI)
  assume "r (ustr ''Email Address'') = None \<or>
    (\<exists>cell. r (ustr ''Email Address'') = Some (PyStr cell) \<and> py_strip cell = [])"
  then obtain cell where "row_get r (ustr ''Email Address'') = PyStr cell" and "py_strip cell = []"
    by (auto simp: row_get_def)
  then show "analyze_row a r =
      Inr (a\<lparr>a_stats := (a_stats a)\<lparr>total_rows := total_rows (a_stats a) + 1\<rparr>\<rparr>)"
    by (rule analyze_row_blank)
next
  fix cell
  assume h: "r (ustr ''Email Address'') = Some (PyStr cell) \<and> py_strip cell \<noteq> [] \<and>
      \<not> validate_email (PyStr (py_lower (py_strip cell)))"
  then have "row_get r (ustr ''Email Address'') = PyStr cell" by (simp add: row_get_def)
  with h show "analyze_row a r =
      Inr (a\<lparr>a_stats := (a_stats a)\<lparr>total_rows := total_rows (a_stats a) + 1,
                                     invalid_emails := invalid_emails (a_stats a) + 1\<rparr>\<rparr>)"
    using analyze_row_invalid [of r cell a] by blast
qed

lemma analyze_row_empty_or_invalid_example:
  "analyze_row \<lparr>emails_seen = [], tags_counter = Map.empty, a_stats = init_stats\<rparr> Map.empty =
     Inr \<lparr>emails_seen = [], tags_counter = Map.empty, a_stats = init_stats\<lparr>total_rows := 1\<rparr>\<rparr> \<and>
   analyze_row \<lparr>emails_seen = [], tags_counter = Map.empty, a_stats = init_stats\<rparr>
       [ustr ''Email Address'' \<mapsto> PyStr (ustr ''  '')] =
     Inr \<lparr>emails_seen = [], tags_counter = Map.empty, a_stats = init_stats\<lparr>total_rows := 1\<rparr>\<rparr> \<and>
   analyze_row \<lparr>emails_seen = [], tags_counter = Map.empty, a_stats = init_stats\<rparr>
       [ustr ''Email Address'' \<mapsto> PyStr (ustr ''bad'')] =
     Inr \<lparr>emails_seen = [], tags_counter = Map.empty,
          a_stats = init_stats\<lparr>total_rows := 1, invalid_emails := 1\<rparr>\<rparr>"
proof -
  let ?a = "\<lparr>emails_seen = [], tags_counter = Map.empty, a_stats = init_stats\<rparr>"
  have s2: "py_strip (ustr ''  '') = []" by (simp add: py_strip_def py_isspace_def)
  have s3: "py_strip (ustr ''bad'') \<noteq> [] \<and> \<not> validate_email (PyStr (py_lower (py_strip (ustr ''bad''))))"
    by (simp add: py_strip_def py_isspace_def py_lower_def lower_cp_def re_match_anchored_def
        matches_def email_pattern_def re_plus_def local_chr_def is_alpha_def is_digit_def)
  from analyze_row_empty_or_invalid [of Map.empty ?a]
  have 1: "analyze_row ?a Map.empty = Inr (?a\<lparr>a_stats := (a_stats ?a)\<lparr>total_rows := total_rows (a_stats ?a) + 1\<rparr>\<rparr>)"
    by simp
  from analyze_row_empty_or_invalid [of "[ustr ''Email Address'' \<mapsto> PyStr (ustr ''  '')]" ?a] s2
  have 2: "analyze_row ?a [ustr ''Email Address'' \<mapsto> PyStr (ustr ''  '')] =
      Inr (?a\<lparr>a_stats := (a_stats ?a)\<lparr>total_rows := total_rows (a_stats ?a) + 1\<rparr>\<rparr>)"
    by simp
  from analyze_row_empty_or_invalid [of "[ustr ''Email Address'' \<mapsto> PyStr (ustr ''bad'')]" ?a] s3
  have 3: "analyze_row ?a [ustr ''Email Address'' \<mapsto> PyStr (ustr ''bad'')] =
      Inr (?a\<lparr>a_stats := (a_stats ?a)\<lparr>total_rows := total_rows (a_stats ?a) + 1,
                                       invalid_emails := invalid_emails (a_stats ?a) + 1\<rparr>\<rparr>)"
    by (simp del: validate_email.simps)
  from 1 2 3 show ?thesis by (simp add: init_stats_def)
qed


text \<open>
  C2. The analysis pass changes no state that the conversion pass reads or reports.
  The code does not keep to this: the analysis pass calls \<open>clean_tags\<close> on the object,
  and \<open>clean_tags\<close> adds to \<open>tags_cleaned\<close>, the counter the conversion pass adds to
  and prints. On a file of one row with a valid email and the tag \<^verbatim>\<open>VIP\<close> the analysis
  leaves \<open>tags_cleaned\<close> at 1; the conversion alone ends with 1, and run after the
  analysis, as \<^verbatim>\<open>main\<close> runs it, with 2. The counters \<open>processed\<close> and \<open>skipped\<close> do
  come out of the analysis as they went in (\<open>analyze_input_frame\<close>).
\<close>

theorem analysis_changes_tags_cleaned:
  "tags_cleaned init_stats = 0 \<and>
   map_sum id (tags_cleaned \<circ> a_stats)
     (analyze_input init_stats
        (one_row_file (ustr ''Email Address'') (ustr ''a@b.co'') (ustr ''VIP''))) = Inr 1 \<and>
   map_sum id (tags_cleaned \<circ> c_stats)
     (convert True init_stats
        (one_row_file (ustr ''Email Address'') (ustr ''a@b.co'') (ustr ''VIP''))) = Inr 1 \<and>
   map_sum id (tags_cleaned \<circ> c_stats \<circ> snd)
     (main_run False
        (one_row_file (ustr ''Email Address'') (ustr ''a@b.co'') (ustr ''VIP''))) = Inr 2"
  by (simp add: one_row_file_def analyze_input_def analyze_row_def convert_def convert_row_def
      main_run_def column_mapping_def row_get_def init_stats_def Let_def
      py_strip_def py_isspace_def py_lower_def lower_cp_def py_split_def
      re_match_anchored_def matches_def email_pattern_def re_plus_def
      local_chr_def domain_chr_def is_alpha_def is_digit_def
      cleaned_tags_def quotes_to_remove_def is_delim_def count_duplicates_def)

section \<open>The conversion pass: claims\<close>

text \<open>
  The conversion loop on a row whose email cell is a string, an absent column counting
  as the empty string. The loop treats the row by the first of three rules that
  applies. If the email is empty after trimming or not valid, \<open>skipped\<close> goes up by one
  and nothing else changes: nothing is written. Otherwise, if duplicates are removed and
  the email in lower case is in the set of emails seen, the same. Otherwise the email in
  lower case joins the set, one row is appended to the output, made of the trimmed
  email, the first and last name through \<open>clean_name\<close> and the tags through
  \<open>clean_tags\<close>, and \<open>processed\<close> goes up by one. And every row of the output of a
  run that returns has a non-empty, valid email.
\<close>

lemma convert_row_policy:
  "(\<forall>cell. row_get r (col_email cm) = PyStr cell \<longrightarrow>
      (py_strip cell = [] \<or> \<not> validate_email (PyStr (py_strip cell)) \<longrightarrow>
         convert_row rd cm s r =
           Inr (s\<lparr>c_stats := (c_stats s)\<lparr>skipped := skipped (c_stats s) + 1\<rparr>\<rparr>)) \<and>
      (py_strip cell \<noteq> [] \<and> validate_email (PyStr (py_strip cell)) \<and>
       rd \<and> py_lower (py_strip cell) \<in> emails_processed s \<longrightarrow>
         convert_row rd cm s r =
           Inr (s\<lparr>c_stats := (c_stats s)\<lparr>skipped := skipped (c_stats s) + 1\<rparr>\<rparr>)) \<and>
      (py_strip cell \<noteq> [] \<and> validate_email (PyStr (py_strip cell)) \<and>
       \<not> (rd \<and> py_lower (py_strip cell) \<in> emails_processed s) \<longrightarrow>
         convert_row rd cm s r =
           Inr \<lparr>emails_processed = insert (py_lower (py_strip cell)) (emails_processed s),
                written = written s @
                  [\<lparr>Email = py_strip cell,
                    First_Name = clean_name (row_get r (col_first cm)),
                    Last_Name = clean_name (row_get r (col_last cm)),
                    Tags = fst (clean_tags (c_stats s) (row_get r (col_tags cm)))\<rparr>],
                c_stats = (snd (clean_tags (c_stats s) (row_get r (col_tags cm))))
                  \<lparr>processed :=
                     processed (snd (clean_tags (c_stats s) (row_get r (col_tags cm)))) + 1\<rparr>\<rparr>)) \<and>
   (\<forall>c. convert rd st f = Inr c \<longrightarrow>
      (\<forall>out \<in> set (written c). Email out \<noteq> [] \<and> validate_email (PyStr (Email out))))"
proof (intro conjI allI impI)
  fix cell
  assume "row_get r (col_email cm) = PyStr cell"
    and "py_strip cell = [] \<or> \<not> validate_email (PyStr (py_strip cell))"
  then show "convert_row rd cm s r =
      Inr (s\<lparr>c_stats := (c_stats s)\<lparr>skipped := skipped (c_stats s) + 1\<rparr>\<rparr>)"
    by (rule convert_row_reject)
next
  fix cell
  assume c: "row_get r (col_email cm) = PyStr cell"
    and h: "py_strip cell \<noteq> [] \<and> validate_email (PyStr (py_strip cell)) \<and>
       rd \<and> py_lower (py_strip cell) \<in> emails_processed s"
  from h have "py_strip cell \<noteq> []" "validate_email (PyStr (py_strip cell))" "rd"
    "py_lower (py_strip cell) \<in> emails_processed s" by blast+
  with c show "convert_row rd cm s r =
      Inr (s\<lparr>c_stats := (c_stats s)\<lparr>skipped := skipped (c_stats s) + 1\<rparr>\<rparr>)"
    by (rule convert_row_duplicate)
next
  fix cell
  assume c: "row_get r (col_email cm) = PyStr cell"
    and h: "py_strip cell \<noteq> [] \<and> validate_email (PyStr (py_strip cell)) \<and>
       \<not> (rd \<and> py_lower (py_strip cell) \<in> emails_processed s)"
  from h have "py_strip cell \<noteq> []" "validate_email (PyStr (py_strip cell))"
    "\<not> (rd \<and> py_lower (py_strip cell) \<in> emails_processed s)" by blast+
  with c show "convert_row rd cm s r =
           Inr \<lparr>emails_processed = insert (py_lower (py_strip cell)) (emails_processed s),
                written = written s @
                  [\<lparr>Email = py_strip cell,
                    First_Name = clean_name (row_get r (col_first cm)),
                    Last_Name = clean_name (row_get r (col_last cm)),
                    Tags = fst (clean_tags (c_stats s) (row_get r (col_tags cm)))\<rparr>],
                c_stats = (snd (clean_tags (c_stats s) (row_get r (col_tags cm))))
                  \<lparr>processed :=
                     processed (snd (clean_tags (c_stats s) (row_get r (col_tags cm)))) + 1\<rparr>\<rparr>"
    by (rule convert_row_emit)
next
  fix c
  assume "convert rd st f = Inr c"
  then show "\<forall>out \<in> set (written c). Email out \<noteq> [] \<and> validate_email (PyStr (Email out))"
    by (rule convert_written_valid)
qed


lemma convert_row_policy_example:
  "convert_row True (column_mapping [ustr ''Email Address''])
     \<lparr>emails_processed = {}, written = [], c_stats = init_stats\<rparr>
     [ustr ''Email Address'' \<mapsto> PyStr (ustr ''bad'')] =
     Inr \<lparr>emails_processed = {}, written = [], c_stats = init_stats\<lparr>skipped := 1\<rparr>\<rparr> \<and>
   convert_row True (column_mapping [ustr ''Email Address''])
     \<lparr>emails_processed = {ustr ''a@b.co''}, written = [], c_stats = init_stats\<rparr>
     [ustr ''Email Address'' \<mapsto> PyStr (ustr ''A@b.co'')] =
     Inr \<lparr>emails_processed = {ustr ''a@b.co''}, written = [],
          c_stats = init_stats\<lparr>skipped := 1\<rparr>\<rparr> \<and>
   convert_row True (column_mapping [ustr ''Email Address''])
     \<lparr>emails_processed = {}, written = [], c_stats = init_stats\<rparr>
     [ustr ''Email Address'' \<mapsto> PyStr (ustr ''A@b.co'')] =
     Inr \<lparr>emails_processed = {ustr ''a@b.co''},
          written = [\<lparr>Email = ustr ''A@b.co'', First_Name = [], Last_Name = [], Tags = []\<rparr>],
          c_stats = init_stats\<lparr>processed := 1\<rparr>\<rparr> \<and>
   convert True init_stats (two_row_file (ustr ''A@b.co'') (ustr ''bad'')) =
     Inr \<lparr>emails_processed = {ustr ''a@b.co''},
          written = [\<lparr>Email = ustr ''A@b.co'', First_Name = [], Last_Name = [], Tags = []\<rparr>],
          c_stats = init_stats\<lparr>processed := 1, skipped := 1\<rparr>\<rparr> \<and>
   Email \<lparr>Email = ustr ''A@b.co'', First_Name = [], Last_Name = [], Tags = []\<rparr> \<noteq> [] \<and>
   validate_email
     (PyStr (Email \<lparr>Email = ustr ''A@b.co'', First_Name = [], Last_Name = [], Tags = []\<rparr>))"
proof -
  let ?cm = "column_mapping [ustr ''Email Address'']"
  let ?s0 = "\<lparr>emails_processed = {}, written = [], c_stats = init_stats\<rparr>"
  let ?s1 = "\<lparr>emails_processed = {ustr ''a@b.co''}, written = [], c_stats = init_stats\<rparr>"
  let ?bad = "[ustr ''Email Address'' \<mapsto> PyStr (ustr ''bad'')]"
  let ?ok = "[ustr ''Email Address'' \<mapsto> PyStr (ustr ''A@b.co'')]"
  note ev = column_mapping_def row_get_def init_stats_def py_strip_def py_isspace_def
    py_lower_def lower_cp_def re_match_anchored_def matches_def email_pattern_def re_plus_def
    local_chr_def domain_chr_def is_alpha_def is_digit_def
  have 1: "convert_row True ?cm ?s0 ?bad =
      Inr \<lparr>emails_processed = {}, written = [], c_stats = init_stats\<lparr>skipped := 1\<rparr>\<rparr>"
    using convert_row_policy [of ?bad ?cm True ?s0] by (simp add: ev)
  have 2: "convert_row True ?cm ?s1 ?ok =
      Inr \<lparr>emails_processed = {ustr ''a@b.co''}, written = [],
           c_stats = init_stats\<lparr>skipped := 1\<rparr>\<rparr>"
    using convert_row_policy [of ?ok ?cm True ?s1] by (simp add: ev)
  have 3: "convert_row True ?cm ?s0 ?ok =
      Inr \<lparr>emails_processed = {ustr ''a@b.co''},
           written = [\<lparr>Email = ustr ''A@b.co'', First_Name = [], Last_Name = [], Tags = []\<rparr>],
           c_stats = init_stats\<lparr>processed := 1\<rparr>\<rparr>"
    using convert_row_policy [of ?ok ?cm True ?s0] by (simp add: ev)
  have 4: "convert True init_stats (two_row_file (ustr ''A@b.co'') (ustr ''bad'')) =
     Inr \<lparr>emails_processed = {ustr ''a@b.co''},
          written = [\<lparr>Email = ustr ''A@b.co'', First_Name = [], Last_Name = [], Tags = []\<rparr>],
          c_stats = init_stats\<lparr>processed := 1, skipped := 1\<rparr>\<rparr>"
    by (simp add: convert_def two_row_file_def 1 3 [unfolded init_stats_def] ev convert_row_def Let_def)
  have 5: "Email \<lparr>Email = ustr ''A@b.co'', First_Name = [], Last_Name = [], Tags = []\<rparr> \<noteq> [] \<and>
      validate_email
        (PyStr (Email \<lparr>Email = ustr ''A@b.co'', First_Name = [], Last_Name = [], Tags = []\<rparr>))"
    using convert_row_policy [where rd = True and st = init_stats
        and f = "two_row_file (ustr ''A@b.co'') (ustr ''bad'')"] 4
    by (simp del: validate_email.simps)
  from 1 2 3 4 5 show ?thesis by (simp only: simp_thms)
qed

text \<open>
  C3. The conversion loop treats every row by the first rule that applies, and the
  first rule is: if the email is missing or not valid, \<open>skipped\<close> goes up by one,
  nothing is written and the loop goes on. The code does not keep to this for a row
  that stops short of the email column. For each field such a row lacks
  \<^verbatim>\<open>csv.DictReader\<close> stores \<^verbatim>\<open>None\<close>; \<^verbatim>\<open>row.get(column_mapping['Email'], '')\<close>
  returns that \<^verbatim>\<open>None\<close>, its default \<^verbatim>\<open>''\<close> standing in only for a column the
  header does not have; and \<^verbatim>\<open>.strip()\<close> on it raises \<^verbatim>\<open>AttributeError\<close> before
  the test \<^verbatim>\<open>if not email or not self.validate_email(email)\<close> is reached. So the row
  is not skipped: the pass ends with the exception, \<open>skipped\<close> as it was, whether
  duplicates are removed or kept. The functions the loop calls allow for \<^verbatim>\<open>None\<close>:
  \<open>validate_email\<close>, \<open>clean_name\<close> and \<open>clean_tags\<close> each begin with a test
  \<^verbatim>\<open>if not ...\<close>. For an email cell that is a string, and for a file without the
  column, the three rules hold (\<open>convert_row_policy\<close>).
\<close>

theorem convert_short_row_raises:
  "(rows short_row_file ! 0)
     (col_email (column_mapping [ustr ''First Name'', ustr ''Email Address''])) = Some PyNone \<and>
   convert_row True (column_mapping [ustr ''First Name'', ustr ''Email Address''])
     \<lparr>emails_processed = {}, written = [], c_stats = init_stats\<rparr>
     (rows short_row_file ! 0) = Inl AttributeError \<and>
   convert True init_stats short_row_file = Inl AttributeError \<and>
   convert False init_stats short_row_file = Inl AttributeError \<and>
   \<not> validate_email PyNone"
  by (simp add: short_row_file_def convert_def convert_row_def column_mapping_def row_get_def)



section \<open>Duplicate removal: claims\<close>



section \<open>The validator and lower case\<close>




















section \<open>The two passes compared: claims\<close>





end
